theory Spec2Isabelle
  imports Main "HOL-Library.Word"
begin

section \<open>The GCE Windows agent: \<^verbatim>\<open>GCEWindowsAgent/main.go\<close>\<close>

text \<open>
  A shallow embedding of \<^verbatim>\<open>main.go\<close>. The file holds the agent's control loop:
  \<^verbatim>\<open>containsString\<close>, \<^verbatim>\<open>parseConfig\<close>, \<^verbatim>\<open>runUpdate\<close> (one reconciliation cycle),
  the goroutine of \<^verbatim>\<open>run\<close> (the metadata watch loop) and \<^verbatim>\<open>main\<close>.

  What \<^verbatim>\<open>main.go\<close> uses and does not declare is a parameter of the model:
  \<^item> the type \<^verbatim>\<open>metadataJSON\<close> is the type variable \<open>'m\<close>, its zero value a
    parameter of the loop's initial state;
  \<^item> \<^verbatim>\<open>*ini.File\<close> is \<open>'c option\<close>, \<open>None\<close> being the nil pointer, and
    \<^verbatim>\<open>ini.InsensitiveLoad\<close> a function from the bytes to a parse error or a file;
  \<^item> \<^verbatim>\<open>newWsfcManager\<close> is a function of its two arguments;
  \<^item> the methods of the \<^verbatim>\<open>manager\<close> interface (the types \<^verbatim>\<open>addresses\<close>,
    \<^verbatim>\<open>accounts\<close>, \<^verbatim>\<open>diagnostics\<close> and the wsfc manager implement them elsewhere) are
    a function from a manager instance to what its three methods return;
  \<^item> \<^verbatim>\<open>watchMetadata\<close>, \<^verbatim>\<open>ioutil.ReadFile\<close> and the state of the context are
    inputs of each iteration of the loop;
  \<^item> the results of the OS-service control operations are a function from the verb to the
    error it returns.
  The functions \<^verbatim>\<open>register\<close> and \<^verbatim>\<open>logger.Fatal\<close> belong to the repository and are
  not in \<^verbatim>\<open>main.go\<close>: they are modelled from the specification, and marked so.
\<close>

subsection \<open>Errors and log entries\<close>

text \<open>
  Go errors, as far as \<^verbatim>\<open>main.go\<close> tells them apart: \<^verbatim>\<open>*url.Error\<close> with its field
  \<^verbatim>\<open>Err\<close>, \<^verbatim>\<open>*net.DNSError\<close>, \<^verbatim>\<open>*net.OpError\<close>, an error for which
  \<^verbatim>\<open>os.IsNotExist\<close> holds, an error of the ini parser, and any other error.
\<close>

datatype error =
    UrlError error
  | DNSError
  | OpError
  | NotExistError
  | ParseError string
  | OtherError string

fun IsNotExist :: "error \<Rightarrow> bool" where
  "IsNotExist NotExistError = True"
| "IsNotExist _ = False"

text \<open>An entry of the log: \<^verbatim>\<open>logger.Error\<close> of a string or of an error value.\<close>

datatype logentry =
    ErrorText string
  | ErrorValue error

subsection \<open>\<^verbatim>\<open>containsString\<close>\<close>

fun containsString :: "string \<Rightarrow> string list \<Rightarrow> bool" where
  "containsString s [] = False"
| "containsString s (a # ss) = (if a = s then True else containsString s ss)"

subsection \<open>The \<^verbatim>\<open>manager\<close> interface and the goroutine of one manager\<close>

text \<open>
  A manager, as the dispatch sees it: what \<^verbatim>\<open>disabled()\<close>, \<^verbatim>\<open>diff()\<close> and
  \<^verbatim>\<open>set()\<close> return when they are called (\<open>None\<close> is the nil error). Each method is
  called at most once on an instance.
\<close>

record manager =
  disabled :: bool
  diff :: bool
  set_mgr :: "error option"

text \<open>What one goroutine does to its manager, in order.\<close>

datatype call =
    CallDisabled
  | CallDiff
  | CallSet
  | LogError error

text \<open>
  The body of the goroutine: \<^verbatim>\<open>if mgr.disabled() || !mgr.diff() { return }\<close>, where
  \<^verbatim>\<open>||\<close> does not evaluate its right operand when the left one is true, then
  \<^verbatim>\<open>if err := mgr.set(); err != nil { logger.Error(err) }\<close>.
\<close>

definition dispatch :: "manager \<Rightarrow> call list" where
  "dispatch mgr =
     (if disabled mgr then [CallDisabled]
      else if \<not> diff mgr then [CallDisabled, CallDiff]
      else (case set_mgr mgr of
              None \<Rightarrow> [CallDisabled, CallDiff, CallSet]
            | Some err \<Rightarrow> [CallDisabled, CallDiff, CallSet, LogError err]))"

subsection \<open>\<^verbatim>\<open>parseConfig\<close> and \<^verbatim>\<open>runUpdate\<close>\<close>

text \<open>
  The fields of the struct literals \<^verbatim>\<open>&addresses{...}\<close>, \<^verbatim>\<open>&accounts{...}\<close> and
  \<^verbatim>\<open>&diagnostics{...}\<close>, and the four manager instances of a cycle. The wsfc manager
  is what \<^verbatim>\<open>newWsfcManager(newMetadata, cfg)\<close> returns.
\<close>

record ('m, 'c) fields =
  mgr_oldMetadata :: 'm
  mgr_newMetadata :: 'm
  mgr_config :: "'c option"

datatype ('m, 'c, 'w) mgr_instance =
    Addresses "('m, 'c) fields"
  | Accounts "('m, 'c) fields"
  | Wsfc 'w
  | Diagnostics "('m, 'c) fields"

text \<open>The functions \<^verbatim>\<open>main.go\<close> calls and does not declare.\<close>

record ('m, 'c, 'w) env =
  InsensitiveLoad :: "string \<Rightarrow> string + 'c"
  newWsfcManager :: "'m \<Rightarrow> 'c option \<Rightarrow> 'w"

text \<open>
  What one iteration of the watch loop reads from outside: the result of
  \<^verbatim>\<open>watchMetadata(ctx)\<close>, whether \<^verbatim>\<open>ctx.Done()\<close> is closed at the \<^verbatim>\<open>select\<close>, the
  result of \<^verbatim>\<open>ioutil.ReadFile(configPath)\<close>, and the methods of the managers.
\<close>

record ('m, 'c, 'w) input =
  watchMetadata :: "error + 'm"
  ctxDone :: bool
  ReadFile :: "error + string"
  methods :: "('m, 'c, 'w) mgr_instance \<Rightarrow> manager"

text \<open>
  \<^verbatim>\<open>ini.InsensitiveLoad\<close> returns a file and a nil error, or a nil file and an error
  of the parser.
\<close>

definition load :: "(string \<Rightarrow> string + 'c) \<Rightarrow> string \<Rightarrow> 'c option \<times> error option" where
  "load f d = (case f d of Inl msg \<Rightarrow> (None, Some (ParseError msg)) | Inr file \<Rightarrow> (Some file, None))"

definition parseConfig ::
  "(string \<Rightarrow> string + 'c) \<Rightarrow> error + string \<Rightarrow> 'c option \<times> error option" where
  "parseConfig f file =
     (case file of
        Inl err \<Rightarrow> (None, Some err)
      | Inr d \<Rightarrow> load f d)"

text \<open>
  One cycle, as \<^verbatim>\<open>runUpdate\<close> leaves it: what it logged before the dispatch, the
  configuration it handed to the managers, the managers in the order of the slice, and the
  calls of each manager's goroutine. The goroutines run concurrently: \<open>calls\<close> keeps
  one sequence per goroutine and says nothing of how they interleave. \<^verbatim>\<open>wg.Wait()\<close>
  returns when all four are done.
\<close>

record ('m, 'c, 'w) cycle =
  config_log :: "logentry list"
  cfg :: "'c option"
  managers :: "('m, 'c, 'w) mgr_instance list"
  calls :: "call list list"

definition runUpdate ::
  "('m, 'c, 'w) env \<Rightarrow> ('m, 'c, 'w) input \<Rightarrow> 'm \<Rightarrow> 'm \<Rightarrow> ('m, 'c, 'w) cycle" where
  "runUpdate env inp newMetadata oldMetadata =
     (let (cfg0, err) = parseConfig (InsensitiveLoad env) (ReadFile inp);
          logged = (case err of
                      None \<Rightarrow> []
                    | Some e \<Rightarrow> if \<not> IsNotExist e then [ErrorValue e] else []);
          cfg1 = (case cfg0 of
                    None \<Rightarrow> fst (load (InsensitiveLoad env) [])
                  | Some file \<Rightarrow> Some file);
          addressMgr = Addresses
            \<lparr>mgr_oldMetadata = oldMetadata, mgr_newMetadata = newMetadata, mgr_config = cfg1\<rparr>;
          acctMgr = Accounts
            \<lparr>mgr_oldMetadata = oldMetadata, mgr_newMetadata = newMetadata, mgr_config = cfg1\<rparr>;
          diagMgr = Diagnostics
            \<lparr>mgr_oldMetadata = oldMetadata, mgr_newMetadata = newMetadata, mgr_config = cfg1\<rparr>;
          wsfcMgr = Wsfc (newWsfcManager env newMetadata cfg1);
          mgrs = [addressMgr, acctMgr, wsfcMgr, diagMgr]
      in \<lparr>config_log = logged, cfg = cfg1, managers = mgrs,
          calls = map (\<lambda>mgr. dispatch (methods inp mgr)) mgrs\<rparr>)"

subsection \<open>The watch loop of \<^verbatim>\<open>run\<close>\<close>

text \<open>
  The variables of the goroutine that \<^verbatim>\<open>run\<close> starts. \<^verbatim>\<open>webError\<close> is a Go
  \<^verbatim>\<open>int\<close>, 64 bits wide on the agent's platform: \<^verbatim>\<open>webError++\<close> wraps around.
\<close>

record 'm state =
  oldMetadata :: 'm
  webError :: "64 word"

text \<open>
  The loop either goes on to its next iteration or returns (the \<^verbatim>\<open>return\<close> of the
  \<^verbatim>\<open>select\<close>); both carry the values of the variables at that point.
\<close>

datatype 'm outcome =
    Next "'m state"
  | Returned "'m state"

datatype ('m, 'c, 'w) event =
    WatchMetadata
  | Log logentry
  | Sleep nat
  | RunUpdate 'm 'm "('m, 'c, 'w) cycle"

definition dnsHint :: string where
  "dnsHint = ''DNS error when requesting metadata, check DNS settings and ensure metadata.internal.google is setup in your hosts file.''"

definition netHint :: string where
  "netHint = ''Network error when requesting metadata, make sure your instance has an active network and can reach the metadata server.''"

text \<open>
  The two type assertions on \<^verbatim>\<open>urlErr.Err\<close> inside \<^verbatim>\<open>if urlErr, ok := err.(*url.Error); ok\<close>.
\<close>

definition hints :: "error \<Rightarrow> logentry list" where
  "hints err =
     (case err of
        UrlError inner \<Rightarrow>
          (case inner of DNSError \<Rightarrow> [ErrorText dnsHint] | _ \<Rightarrow> []) @
          (case inner of OpError \<Rightarrow> [ErrorText netHint] | _ \<Rightarrow> [])
      | _ \<Rightarrow> [])"

text \<open>
  One iteration of the \<^verbatim>\<open>for\<close> loop. \<open>Sleep 5\<close> is \<^verbatim>\<open>time.Sleep(5 * time.Second)\<close>;
  \<open>RunUpdate new old c\<close> is the call \<^verbatim>\<open>runUpdate(newMetadata, &oldMetadata)\<close> with the
  cycle \<open>c\<close> it ran.
\<close>

definition iteration ::
  "('m, 'c, 'w) env \<Rightarrow> 'm state \<Rightarrow> ('m, 'c, 'w) input \<Rightarrow> ('m, 'c, 'w) event list \<times> 'm outcome" where
  "iteration env s inp =
     (case watchMetadata inp of
        Inl err \<Rightarrow>
          (WatchMetadata #
             (if webError s = 1 then map Log (hints err @ [ErrorValue err]) else []) @
             [Sleep 5],
           Next (s\<lparr>webError := webError s + 1\<rparr>))
      | Inr newMetadata \<Rightarrow>
          if ctxDone inp then ([WatchMetadata], Returned s)
          else
            ([WatchMetadata,
              RunUpdate newMetadata (oldMetadata s) (runUpdate env inp newMetadata (oldMetadata s))],
             Next (s\<lparr>oldMetadata := newMetadata, webError := 0\<rparr>)))"

text \<open>
  The loop over the inputs of its first iterations. The loop has no exit but the
  \<^verbatim>\<open>return\<close>: when the inputs are used up it stands before its next
  \<^verbatim>\<open>watchMetadata\<close>, in the state \<open>Next s\<close>.
\<close>

fun loop ::
  "('m, 'c, 'w) env \<Rightarrow> 'm state \<Rightarrow> ('m, 'c, 'w) input list \<Rightarrow> ('m, 'c, 'w) event list \<times> 'm outcome" where
  "loop env s [] = ([], Next s)"
| "loop env s (inp # inps) =
     (case iteration env s inp of
        (evs, Returned s') \<Rightarrow> (evs, Returned s')
      | (evs, Next s') \<Rightarrow> (case loop env s' inps of (evs', r) \<Rightarrow> (evs @ evs', r)))"

text \<open>
  The goroutine of \<^verbatim>\<open>run\<close>: \<^verbatim>\<open>var oldMetadata metadataJSON\<close> is the zero value of
  the type, \<^verbatim>\<open>webError := 0\<close>. The thread that starts it logs that the agent has
  started, waits for \<^verbatim>\<open>ctx.Done()\<close> and logs that the agent has stopped; it shares no
  variable with the goroutine.
\<close>

definition run ::
  "('m, 'c, 'w) env \<Rightarrow> 'm \<Rightarrow> ('m, 'c, 'w) input list \<Rightarrow> ('m, 'c, 'w) event list \<times> 'm outcome" where
  "run env zero inps = loop env \<lparr>oldMetadata = zero, webError = 0\<rparr> inps"

subsection \<open>\<^verbatim>\<open>main\<close>\<close>










subsection \<open>Reading a trace\<close>

text \<open>The log entries of a trace of the loop, in order.\<close>

fun logs :: "('m, 'c, 'w) event list \<Rightarrow> logentry list" where
  "logs [] = []"
| "logs (Log e # evs) = e # logs evs"
| "logs (_ # evs) = logs evs"

text \<open>
  The cycles of a trace, in order: the new snapshot, the previous snapshot and the cycle of
  each call of \<^verbatim>\<open>runUpdate\<close>.
\<close>

fun dispatches :: "('m, 'c, 'w) event list \<Rightarrow> ('m \<times> 'm \<times> ('m, 'c, 'w) cycle) list" where
  "dispatches [] = []"
| "dispatches (RunUpdate n old c # evs) = (n, old, c) # dispatches evs"
| "dispatches (_ # evs) = dispatches evs"

subsection \<open>Example values\<close>

text \<open>
  Concrete managers, functions and inputs on which the properties below are evaluated:
  snapshots are numbers, a configuration is the text it was loaded from, the addresses
  manager fails in \<^verbatim>\<open>set()\<close>, the accounts manager is disabled, the wsfc manager sees no
  change.
\<close>

definition methods0 :: "(nat, string, nat \<times> string option) mgr_instance \<Rightarrow> manager" where
  "methods0 mgr =
     (case mgr of
        Addresses f \<Rightarrow>
          \<lparr>disabled = False, diff = (mgr_oldMetadata f \<noteq> mgr_newMetadata f),
           set_mgr = Some (OtherError ''set failed'')\<rparr>
      | Accounts f \<Rightarrow> \<lparr>disabled = True, diff = True, set_mgr = None\<rparr>
      | Wsfc w \<Rightarrow> \<lparr>disabled = False, diff = False, set_mgr = None\<rparr>
      | Diagnostics f \<Rightarrow> \<lparr>disabled = False, diff = True, set_mgr = None\<rparr>)"

definition env0 :: "(nat, string, nat \<times> string option) env" where
  "env0 = \<lparr>InsensitiveLoad = (\<lambda>d. if d = ''['' then Inl ''unclosed section'' else Inr d),
           newWsfcManager = (\<lambda>n c. (n, c))\<rparr>"

definition input0 ::
  "error + nat \<Rightarrow> bool \<Rightarrow> error + string \<Rightarrow> (nat, string, nat \<times> string option) input" where
  "input0 fetched d file =
     \<lparr>watchMetadata = fetched, ctxDone = d, ReadFile = file, methods = methods0\<rparr>"

section \<open>Properties\<close>

subsection \<open>Auxiliary facts\<close>

lemma logs_append: "logs (xs @ ys) = logs xs @ logs ys"
  by (induction xs rule: logs.induct) simp_all

lemma logs_map_Log: "logs (map Log es) = es"
  by (induction es) simp_all

lemma dispatches_append: "dispatches (xs @ ys) = dispatches xs @ dispatches ys"
  by (induction xs rule: dispatches.induct) simp_all

lemma dispatches_map_Log: "dispatches (map Log es) = []"
  by (induction es) simp_all

lemma managers_runUpdate:
  "managers (runUpdate env inp new old) =
     [Addresses \<lparr>mgr_oldMetadata = old, mgr_newMetadata = new,
                 mgr_config = cfg (runUpdate env inp new old)\<rparr>,
      Accounts \<lparr>mgr_oldMetadata = old, mgr_newMetadata = new,
                mgr_config = cfg (runUpdate env inp new old)\<rparr>,
      Wsfc (newWsfcManager env new (cfg (runUpdate env inp new old))),
      Diagnostics \<lparr>mgr_oldMetadata = old, mgr_newMetadata = new,
                   mgr_config = cfg (runUpdate env inp new old)\<rparr>]"
  by (simp add: runUpdate_def Let_def split: prod.splits)

lemma calls_runUpdate:
  "calls (runUpdate env inp new old) =
     map (\<lambda>mgr. dispatch (methods inp mgr)) (managers (runUpdate env inp new old))"
  by (simp add: runUpdate_def Let_def split: prod.splits)

lemma length_managers: "length (managers (runUpdate env inp new old)) = 4"
  by (simp add: managers_runUpdate)

lemma calls_nth:
  "j < 4 \<Longrightarrow> calls (runUpdate env inp new old) ! j =
     dispatch (methods inp (managers (runUpdate env inp new old) ! j))"
  by (simp add: calls_runUpdate length_managers)

lemma managers_methods:
  "managers (runUpdate env (inp\<lparr>methods := f\<rparr>) new old) = managers (runUpdate env inp new old)"
  by (simp add: runUpdate_def Let_def split: prod.splits)

lemma CallSet_dispatch: "CallSet \<in> set (dispatch mgr) \<longleftrightarrow> \<not> disabled mgr \<and> diff mgr"
  by (simp add: dispatch_def split: option.splits)

lemma disabled_dispatch: "disabled mgr \<Longrightarrow> dispatch mgr = [CallDisabled]"
  by (simp add: dispatch_def)

lemma dispatch_set_error:
  "\<not> disabled mgr \<Longrightarrow> diff mgr \<Longrightarrow> set_mgr mgr = Some err \<Longrightarrow>
   dispatch mgr = [CallDisabled, CallDiff, CallSet, LogError err]"
  by (simp add: dispatch_def)

lemma hints_cases:
  "hints e = (if e = UrlError DNSError then [ErrorText dnsHint]
              else if e = UrlError OpError then [ErrorText netHint] else [])"
  by (simp add: hints_def split: error.splits)

text \<open>The three ways through one iteration.\<close>

lemma iteration_failure:
  "watchMetadata inp = Inl err \<Longrightarrow>
   iteration env s inp =
     (WatchMetadata #
        map Log (if webError s = 1 then hints err @ [ErrorValue err] else []) @ [Sleep 5],
      Next (s\<lparr>webError := webError s + 1\<rparr>))"
  by (simp add: iteration_def)

lemma iteration_success:
  "watchMetadata inp = Inr new \<Longrightarrow> \<not> ctxDone inp \<Longrightarrow>
   iteration env s inp =
     ([WatchMetadata, RunUpdate new (oldMetadata s) (runUpdate env inp new (oldMetadata s))],
      Next (s\<lparr>oldMetadata := new, webError := 0\<rparr>))"
  by (simp add: iteration_def)

lemma iteration_cancelled:
  "watchMetadata inp = Inr new \<Longrightarrow> ctxDone inp \<Longrightarrow>
   iteration env s inp = ([WatchMetadata], Returned s)"
  by (simp add: iteration_def)

lemma loop_starts_with_fetch:
  "\<exists>rest r. loop env s (inp # inps) = (WatchMetadata # rest, r)"
  by (cases "watchMetadata inp"; cases "ctxDone inp")
     (auto simp: iteration_def split: prod.splits outcome.splits)

lemma loop_append:
  "loop env s xs = (evs, Next s') \<Longrightarrow>
   loop env s (xs @ ys) = (evs @ fst (loop env s' ys), snd (loop env s' ys))"
proof (induction xs arbitrary: s evs)
  case Nil
  then show ?case by simp
next
  case (Cons x xs)
  then show ?case
    by (auto split: prod.splits outcome.splits)
qed

text \<open>
  The counter is a 64-bit word: below \<open>2 ^ 64\<close> failures it counts them, and it is 1
  after exactly one.
\<close>

lemma counter_is_one: "k < 2 ^ 64 \<Longrightarrow> (of_nat k = (1 :: 64 word)) \<longleftrightarrow> k = 1"
proof -
  assume k: "k < 2 ^ 64"
  have "(of_nat k = (of_nat 1 :: 64 word)) \<longleftrightarrow> k = 1"
    using k by (subst word_of_nat_eq_iff) (simp add: take_bit_nat_eq_self)
  then show ?thesis by simp
qed

text \<open>
  A run of failed fetches that starts with the counter at \<open>n\<close>: the loop goes on, the
  counter has counted every failure, and the only entries logged are those of the failure
  that found the counter at 1.
\<close>

lemma loop_failures:
  assumes "map watchMetadata inps = map Inl errs"
    and "webError s = of_nat n"
    and "n + length errs < 2 ^ 64"
  shows "\<exists>evs. loop env s inps = (evs, Next (s\<lparr>webError := of_nat (n + length errs)\<rparr>)) \<and>
           logs evs = (if n \<le> 1 \<and> 1 < n + length errs
                       then hints (errs ! (1 - n)) @ [ErrorValue (errs ! (1 - n))] else [])"
  using assms
proof (induction inps arbitrary: s n errs)
  case Nil
  then show ?case by simp
next
  case (Cons inp inps)
  then obtain err errs' where errs: "errs = err # errs'"
    and w: "watchMetadata inp = Inl err"
    and rest: "map watchMetadata inps = map Inl errs'"
    by (cases errs) auto
  let ?s' = "s\<lparr>webError := webError s + 1\<rparr>"
  have s': "webError ?s' = of_nat (Suc n)"
    using Cons.prems(2) by simp
  have bound: "Suc n + length errs' < 2 ^ 64"
    using Cons.prems(3) errs by simp
  from Cons.IH [OF rest s' bound] obtain evs where
    evs: "loop env ?s' inps = (evs, Next (?s'\<lparr>webError := of_nat (Suc n + length errs')\<rparr>))"
    and lg: "logs evs = (if Suc n \<le> 1 \<and> 1 < Suc n + length errs'
                         then hints (errs' ! (1 - Suc n)) @ [ErrorValue (errs' ! (1 - Suc n))]
                         else [])"
    by blast
  have n: "n < 2 ^ 64" using Cons.prems(3) by simp
  have one: "webError s = 1 \<longleftrightarrow> n = 1"
    using counter_is_one [OF n] Cons.prems(2) by simp
  show ?case
    using evs lg one errs
    by (cases "n = 0"; cases "n = 1")
       (auto simp: iteration_failure [OF w] logs_append logs_map_Log)
qed

text \<open>The cycles of a trace are calls of \<^verbatim>\<open>runUpdate\<close> on inputs of the loop.\<close>

lemma loop_Cons_dispatches:
  "dispatches (fst (loop env s (inp # inps))) =
     (case watchMetadata inp of
        Inl err \<Rightarrow> dispatches (fst (loop env (s\<lparr>webError := webError s + 1\<rparr>) inps))
      | Inr new \<Rightarrow>
          if ctxDone inp then []
          else (new, oldMetadata s, runUpdate env inp new (oldMetadata s)) #
               dispatches (fst (loop env (s\<lparr>oldMetadata := new, webError := 0\<rparr>) inps)))"
  by (simp add: iteration_def dispatches_append dispatches_map_Log
      split: sum.splits prod.splits)

lemma first_dispatch:
  "dispatches (fst (loop env s inps)) = (new, old, cyc) # rest \<Longrightarrow>
   old = oldMetadata s \<and> (\<exists>inp\<in>set inps. cyc = runUpdate env inp new old)"
proof (induction inps arbitrary: s)
  case Nil
  then show ?case by simp
next
  case (Cons inp inps)
  show ?case
  proof (cases "watchMetadata inp")
    case (Inl err)
    with Cons.prems have
      "dispatches (fst (loop env (s\<lparr>webError := webError s + 1\<rparr>) inps)) = (new, old, cyc) # rest"
      by (simp add: loop_Cons_dispatches del: loop.simps)
    from Cons.IH [OF this] show ?thesis by auto
  next
    case (Inr n)
    with Cons.prems show ?thesis
      by (auto simp: loop_Cons_dispatches simp del: loop.simps split: if_splits)
  qed
qed

lemma every_dispatch:
  "(new, old, cyc) \<in> set (dispatches (fst (loop env s inps))) \<Longrightarrow>
   \<exists>inp\<in>set inps. cyc = runUpdate env inp new old"
proof (induction inps arbitrary: s)
  case Nil
  then show ?case by simp
next
  case (Cons inp inps)
  show ?case
  proof (cases "watchMetadata inp")
    case (Inl err)
    with Cons.prems have
      "(new, old, cyc) \<in> set (dispatches (fst (loop env (s\<lparr>webError := webError s + 1\<rparr>) inps)))"
      by (simp add: loop_Cons_dispatches del: loop.simps)
    from Cons.IH [OF this] show ?thesis by simp
  next
    case (Inr n)
    show ?thesis
    proof (cases "ctxDone inp")
      case True
      with Inr Cons.prems show ?thesis
        by (simp add: loop_Cons_dispatches del: loop.simps)
    next
      case False
      with Inr Cons.prems have
        "(new, old, cyc) = (n, oldMetadata s, runUpdate env inp n (oldMetadata s)) \<or>
         (new, old, cyc) \<in>
           set (dispatches (fst (loop env (s\<lparr>oldMetadata := n, webError := 0\<rparr>) inps)))"
        by (simp add: loop_Cons_dispatches del: loop.simps)
      then show ?thesis
      proof
        assume "(new, old, cyc) = (n, oldMetadata s, runUpdate env inp n (oldMetadata s))"
        then show ?thesis by simp
      next
        assume "(new, old, cyc) \<in>
          set (dispatches (fst (loop env (s\<lparr>oldMetadata := n, webError := 0\<rparr>) inps)))"
        from Cons.IH [OF this] show ?thesis by simp
      qed
    qed
  qed
qed

subsection \<open>The dispatch of one cycle\<close>

text \<open>
  C1. For every cycle and every configuration domain manager, \<^verbatim>\<open>set()\<close> is invoked in
  that cycle only when \<^verbatim>\<open>disabled()\<close> returned false and \<^verbatim>\<open>diff()\<close> returned true
  for that cycle; and when \<^verbatim>\<open>disabled()\<close> returns true for a domain, neither
  \<^verbatim>\<open>diff()\<close> nor \<^verbatim>\<open>set()\<close> is invoked for it that cycle.

  For the \<open>j\<close>-th manager of any call of \<^verbatim>\<open>runUpdate\<close>: its goroutine calls
  \<^verbatim>\<open>set()\<close> exactly when the manager is not disabled and its \<^verbatim>\<open>diff()\<close> is true, and
  for a disabled manager it calls neither \<^verbatim>\<open>diff()\<close> nor \<^verbatim>\<open>set()\<close>.
\<close>

theorem set_only_when_enabled_and_changed:
  assumes "j < length (managers (runUpdate env inp new old))"
  shows "(CallSet \<in> set (calls (runUpdate env inp new old) ! j) \<longleftrightarrow>
            \<not> disabled (methods inp (managers (runUpdate env inp new old) ! j)) \<and>
            diff (methods inp (managers (runUpdate env inp new old) ! j))) \<and>
         (disabled (methods inp (managers (runUpdate env inp new old) ! j)) \<longrightarrow>
            CallDiff \<notin> set (calls (runUpdate env inp new old) ! j) \<and>
            CallSet \<notin> set (calls (runUpdate env inp new old) ! j))"
proof -
  from assms have j: "j < 4" by (simp add: length_managers)
  show ?thesis
    by (simp add: calls_nth [OF j] CallSet_dispatch disabled_dispatch)
qed

theorem set_only_when_enabled_and_changed_witness:
  "CallSet \<in> set (calls (runUpdate env0 (input0 (Inr 4) False (Inl NotExistError)) 4 3) ! 0) \<and>
   calls (runUpdate env0 (input0 (Inr 4) False (Inl NotExistError)) 4 3) ! 1 = [CallDisabled] \<and>
   CallSet \<notin> set (calls (runUpdate env0 (input0 (Inr 4) False (Inl NotExistError)) 4 3) ! 2)"
proof -
  have four: "length (managers (runUpdate env0 (input0 (Inr 4) False (Inl NotExistError)) 4 3)) = 4"
    by (rule length_managers)
  have j0: "0 < length (managers (runUpdate env0 (input0 (Inr 4) False (Inl NotExistError)) 4 3))"
    and j2: "2 < length (managers (runUpdate env0 (input0 (Inr 4) False (Inl NotExistError)) 4 3))"
    using four by simp_all
  have m0: "methods (input0 (Inr 4) False (Inl NotExistError))
      (managers (runUpdate env0 (input0 (Inr 4) False (Inl NotExistError)) 4 3) ! 0) =
      \<lparr>disabled = False, diff = True, set_mgr = Some (OtherError ''set failed'')\<rparr>"
    and m2: "methods (input0 (Inr 4) False (Inl NotExistError))
      (managers (runUpdate env0 (input0 (Inr 4) False (Inl NotExistError)) 4 3) ! 2) =
      \<lparr>disabled = False, diff = False, set_mgr = None\<rparr>"
    by (simp_all add: managers_runUpdate input0_def methods0_def)
  have "CallSet \<in> set (calls (runUpdate env0 (input0 (Inr 4) False (Inl NotExistError)) 4 3) ! 0)"
    using set_only_when_enabled_and_changed [OF j0] m0 by simp
  moreover have
    "CallSet \<notin> set (calls (runUpdate env0 (input0 (Inr 4) False (Inl NotExistError)) 4 3) ! 2)"
    using set_only_when_enabled_and_changed [OF j2] m2 by simp
  moreover have
    "calls (runUpdate env0 (input0 (Inr 4) False (Inl NotExistError)) 4 3) ! 1 = [CallDisabled]"
    by (simp add: calls_runUpdate managers_runUpdate input0_def methods0_def dispatch_def)
  ultimately show ?thesis by simp
qed

subsection \<open>The log of a streak of failed fetches\<close>

text \<open>
  C2. For every sequence of consecutive metadata-fetch failures, the loop emits a
  diagnostic log entry only when the consecutive-error counter equals exactly 2: the first
  consecutive failure produces no log, the second produces exactly one diagnostic log entry
  (with an additional human-actionable hint when the error is a DNS-resolution failure or a
  network-unreachable failure), the third and later consecutive failures produce no further
  log entries, and a successful fetch resets the counter so the next failure streak restarts
  the same pattern.

  The loop stands with its counter at zero, as at its start and after a cycle, and the next
  fetches fail with the errors \<open>errs\<close>, one after the other. Whatever the length of the
  streak, the loop has then logged nothing if the streak is shorter than two, and else
  exactly the entries of the second failure: the error itself, preceded by one hint when the
  error is a \<^verbatim>\<open>*url.Error\<close> whose \<^verbatim>\<open>Err\<close> is a \<^verbatim>\<open>*net.DNSError\<close> (the DNS hint) or a
  \<^verbatim>\<open>*net.OpError\<close> (the network hint). The counter then holds the length of the
  streak. A fetch that succeeds after the streak either ends the loop (the context is done:
  no later failure is handled at all) or runs the cycle and leaves the counter at zero, which
  is the state this property starts from. The streak is shorter than \<open>2 ^ 64\<close>, the range
  of the 64-bit counter; every failure is followed by a sleep of five seconds.
\<close>

theorem second_consecutive_failure_logged:
  assumes "webError s = 0"
    and "map watchMetadata inps = map Inl errs"
    and "length errs < 2 ^ 64"
    and "watchMetadata ok = Inr new"
  shows "\<exists>evs.
           loop env s inps = (evs, Next (s\<lparr>webError := of_nat (length errs)\<rparr>)) \<and>
           logs evs = (if length errs < 2 then []
                       else hints (errs ! 1) @ [ErrorValue (errs ! 1)]) \<and>
           (\<forall>e. hints e = (if e = UrlError DNSError then [ErrorText dnsHint]
                           else if e = UrlError OpError then [ErrorText netHint] else [])) \<and>
           (if ctxDone ok
            then loop env s (inps @ ok # later) =
                   (evs @ [WatchMetadata], Returned (s\<lparr>webError := of_nat (length errs)\<rparr>))
            else \<exists>cyc. loop env s (inps @ [ok]) =
                   (evs @ [WatchMetadata, RunUpdate new (oldMetadata s) cyc],
                    Next \<lparr>oldMetadata = new, webError = 0\<rparr>))"
proof -
  have s: "webError s = of_nat 0" using assms(1) by simp
  have b: "0 + length errs < 2 ^ 64" using assms(3) by simp
  from loop_failures [OF assms(2) s b, of env] obtain evs where
    evs: "loop env s inps = (evs, Next (s\<lparr>webError := of_nat (length errs)\<rparr>))"
    and lg: "logs evs = (if length errs < 2 then []
                         else hints (errs ! 1) @ [ErrorValue (errs ! 1)])"
    by (auto split: if_splits)
  let ?s' = "s\<lparr>webError := of_nat (length errs)\<rparr>"
  have after: "if ctxDone ok
      then loop env s (inps @ ok # later) = (evs @ [WatchMetadata], Returned ?s')
      else \<exists>cyc. loop env s (inps @ [ok]) =
             (evs @ [WatchMetadata, RunUpdate new (oldMetadata s) cyc],
              Next \<lparr>oldMetadata = new, webError = 0\<rparr>)"
  proof (cases "ctxDone ok")
    case True
    then have "loop env ?s' (ok # later) = ([WatchMetadata], Returned ?s')"
      by (simp add: iteration_cancelled [OF assms(4)])
    with loop_append [OF evs, of "ok # later"] True show ?thesis by simp
  next
    case False
    then have "loop env ?s' [ok] =
        ([WatchMetadata, RunUpdate new (oldMetadata s) (runUpdate env ok new (oldMetadata s))],
         Next \<lparr>oldMetadata = new, webError = 0\<rparr>)"
      by (simp add: iteration_success [OF assms(4)])
    with loop_append [OF evs, of "[ok]"] False show ?thesis by simp
  qed
  from evs lg hints_cases after show ?thesis by blast
qed

theorem second_consecutive_failure_logged_witness:
  "logs (fst (loop env0 \<lparr>oldMetadata = 0, webError = 0\<rparr>
       [input0 (Inl (OtherError ''timeout'')) False (Inl NotExistError),
        input0 (Inl (UrlError DNSError)) False (Inl NotExistError),
        input0 (Inl (UrlError OpError)) False (Inl NotExistError)])) =
     [ErrorText dnsHint, ErrorValue (UrlError DNSError)] \<and>
   snd (loop env0 \<lparr>oldMetadata = 0, webError = 0\<rparr>
       ([input0 (Inl (OtherError ''timeout'')) False (Inl NotExistError),
         input0 (Inl (UrlError DNSError)) False (Inl NotExistError),
         input0 (Inl (UrlError OpError)) False (Inl NotExistError)] @
        [input0 (Inr 7) False (Inl NotExistError)])) =
     Next \<lparr>oldMetadata = 7, webError = 0\<rparr>"
  using second_consecutive_failure_logged
    [of "\<lparr>oldMetadata = 0, webError = 0\<rparr>"
        "[input0 (Inl (OtherError ''timeout'')) False (Inl NotExistError),
          input0 (Inl (UrlError DNSError)) False (Inl NotExistError),
          input0 (Inl (UrlError OpError)) False (Inl NotExistError)]"
        "[OtherError ''timeout'', UrlError DNSError, UrlError OpError]"
        "input0 (Inr 7) False (Inl NotExistError)" 7 env0 "[]"]
  by (auto simp: input0_def hints_cases)

subsection \<open>A failing \<^verbatim>\<open>set()\<close>\<close>

text \<open>
  C3. If any single domain's \<^verbatim>\<open>set()\<close> returns an error during a cycle, that error is
  logged and swallowed: every other domain in the same cycle still has its
  disabled/diff/set steps executed, the cycle still completes, and the previous snapshot is
  still replaced by the current snapshot at the end of the cycle.

  An iteration whose fetch succeeds while the context is not done runs the cycle and goes
  on with the new snapshot as the previous one, whatever the managers return. The cycle
  has four managers and four goroutines; each goroutine does to its manager what the
  dispatch does, so that its calls stay the same when the methods of the other managers
  change; and a \<^verbatim>\<open>set()\<close> that returns an error is followed by the log entry of that
  error and nothing else.
\<close>

theorem set_error_is_logged_and_swallowed:
  assumes "watchMetadata inp = Inr new"
    and "\<not> ctxDone inp"
    and "cyc = runUpdate env inp new (oldMetadata s)"
  shows "iteration env s inp =
           ([WatchMetadata, RunUpdate new (oldMetadata s) cyc],
            Next \<lparr>oldMetadata = new, webError = 0\<rparr>) \<and>
         length (managers cyc) = 4 \<and> length (calls cyc) = 4 \<and>
         (\<forall>j<4. calls cyc ! j = dispatch (methods inp (managers cyc ! j))) \<and>
         (\<forall>j<4. \<forall>f. f (managers cyc ! j) = methods inp (managers cyc ! j) \<longrightarrow>
            calls (runUpdate env (inp\<lparr>methods := f\<rparr>) new (oldMetadata s)) ! j = calls cyc ! j) \<and>
         (\<forall>mgr err. \<not> disabled mgr \<and> diff mgr \<and> set_mgr mgr = Some err \<longrightarrow>
            dispatch mgr = [CallDisabled, CallDiff, CallSet, LogError err])"
proof -
  have "iteration env s inp =
      ([WatchMetadata, RunUpdate new (oldMetadata s) cyc], Next \<lparr>oldMetadata = new, webError = 0\<rparr>)"
    using iteration_success [OF assms(1,2)] assms(3) by simp
  moreover have "length (managers cyc) = 4" "length (calls cyc) = 4"
    using assms(3) by (simp_all add: calls_runUpdate length_managers)
  moreover have "\<forall>j<4. calls cyc ! j = dispatch (methods inp (managers cyc ! j))"
    using assms(3) by (simp add: calls_nth)
  moreover have "\<forall>j<4. \<forall>f. f (managers cyc ! j) = methods inp (managers cyc ! j) \<longrightarrow>
      calls (runUpdate env (inp\<lparr>methods := f\<rparr>) new (oldMetadata s)) ! j = calls cyc ! j"
    using assms(3) by (simp add: calls_nth managers_methods)
  ultimately show ?thesis
    using dispatch_set_error by blast
qed

theorem set_error_is_logged_and_swallowed_witness:
  "iteration env0 \<lparr>oldMetadata = 3, webError = 2\<rparr> (input0 (Inr 4) False (Inl NotExistError)) =
     ([WatchMetadata,
       RunUpdate 4 3
         \<lparr>config_log = [], cfg = Some [],
          managers =
            [Addresses \<lparr>mgr_oldMetadata = 3, mgr_newMetadata = 4, mgr_config = Some []\<rparr>,
             Accounts \<lparr>mgr_oldMetadata = 3, mgr_newMetadata = 4, mgr_config = Some []\<rparr>,
             Wsfc (4, Some []),
             Diagnostics \<lparr>mgr_oldMetadata = 3, mgr_newMetadata = 4, mgr_config = Some []\<rparr>],
          calls =
            [[CallDisabled, CallDiff, CallSet, LogError (OtherError ''set failed'')],
             [CallDisabled],
             [CallDisabled, CallDiff],
             [CallDisabled, CallDiff, CallSet]]\<rparr>],
      Next \<lparr>oldMetadata = 4, webError = 0\<rparr>)"
proof -
  have w: "watchMetadata (input0 (Inr 4) False (Inl NotExistError)) = Inr 4"
    and c: "\<not> ctxDone (input0 (Inr 4) False (Inl NotExistError))"
    by (simp_all add: input0_def)
  have "iteration env0 \<lparr>oldMetadata = 3, webError = 2\<rparr> (input0 (Inr 4) False (Inl NotExistError)) =
      ([WatchMetadata,
        RunUpdate 4 3 (runUpdate env0 (input0 (Inr 4) False (Inl NotExistError)) 4 3)],
       Next \<lparr>oldMetadata = 4, webError = 0\<rparr>)"
    using set_error_is_logged_and_swallowed [OF w c, of _ env0 "\<lparr>oldMetadata = 3, webError = 2\<rparr>"]
    by simp
  then show ?thesis
    by (simp add: input0_def env0_def methods0_def runUpdate_def parseConfig_def load_def
        dispatch_def Let_def)
qed

subsection \<open>A failed fetch\<close>

text \<open>
  C5. For every metadata fetch that returns an error, the watch loop does not advance the
  snapshot pair (the previous snapshot is unchanged), does not terminate, waits a fixed
  5-second delay after applying the logging policy, and then retries the fetch.

  The iteration of a failed fetch is the fetch, the entries the logging policy asks for,
  and the sleep of five seconds; the loop goes on with the previous snapshot it had; and
  the next thing the loop does is to fetch again.
\<close>

theorem fetch_failure_sleeps_and_retries:
  assumes "watchMetadata inp = Inl err"
  shows "\<exists>lg s'.
           iteration env s inp = (WatchMetadata # map Log lg @ [Sleep 5], Next s') \<and>
           lg = (if webError s = 1 then hints err @ [ErrorValue err] else []) \<and>
           oldMetadata s' = oldMetadata s \<and>
           (\<exists>rest r. loop env s (inp # inp' # inps) =
                       (WatchMetadata # map Log lg @ Sleep 5 # WatchMetadata # rest, r))"
proof -
  let ?lg = "if webError s = 1 then hints err @ [ErrorValue err] else []"
  let ?s' = "s\<lparr>webError := webError s + 1\<rparr>"
  have it: "iteration env s inp = (WatchMetadata # map Log ?lg @ [Sleep 5], Next ?s')"
    by (rule iteration_failure [OF assms])
  obtain rest r where "loop env ?s' (inp' # inps) = (WatchMetadata # rest, r)"
    using loop_starts_with_fetch by blast
  with it have "loop env s (inp # inp' # inps) =
      (WatchMetadata # map Log ?lg @ Sleep 5 # WatchMetadata # rest, r)"
    by simp
  with it show ?thesis by auto
qed

theorem fetch_failure_sleeps_and_retries_witness:
  "loop env0 \<lparr>oldMetadata = 3, webError = 1\<rparr>
     [input0 (Inl (UrlError OpError)) True (Inl NotExistError),
      input0 (Inl DNSError) True (Inl NotExistError)] =
   ([WatchMetadata, Log (ErrorText netHint), Log (ErrorValue (UrlError OpError)), Sleep 5,
     WatchMetadata, Sleep 5],
    Next \<lparr>oldMetadata = 3, webError = 3\<rparr>)"
  using fetch_failure_sleeps_and_retries
    [of "input0 (Inl (UrlError OpError)) True (Inl NotExistError)" "UrlError OpError"
        env0 "\<lparr>oldMetadata = 3, webError = 1\<rparr>"
        "input0 (Inl DNSError) True (Inl NotExistError)" "[]"]
  by (simp add: input0_def iteration_def hints_def)

subsection \<open>The local configuration\<close>

text \<open>
  C6. When loading the local override configuration at the start of a cycle: if the file
  does not exist, no error is logged and an empty configuration is used; for any other read
  or parse error, the error is logged, an empty configuration is substituted, and in every
  case the cycle still proceeds to dispatch all domains (configuration errors never abort
  the cycle).

  In a cycle: a read error for which \<^verbatim>\<open>os.IsNotExist\<close> holds is not logged; any other
  read error and any error of the parser is logged, once; in all three cases the
  configuration of the cycle is what \<^verbatim>\<open>ini.InsensitiveLoad\<close> makes of the empty byte
  slice; and in every case the four managers are built with the configuration of the cycle
  and each of them is dispatched.
\<close>

theorem config_errors_never_abort_the_cycle:
  assumes "cyc = runUpdate env inp new old"
  shows "(\<forall>e. ReadFile inp = Inl e \<and> IsNotExist e \<longrightarrow> config_log cyc = []) \<and>
         (\<forall>e. ReadFile inp = Inl e \<and> \<not> IsNotExist e \<longrightarrow> config_log cyc = [ErrorValue e]) \<and>
         (\<forall>d msg. ReadFile inp = Inr d \<and> InsensitiveLoad env d = Inl msg \<longrightarrow>
            config_log cyc = [ErrorValue (ParseError msg)]) \<and>
         ((\<exists>e. ReadFile inp = Inl e) \<or>
          (\<exists>d msg. ReadFile inp = Inr d \<and> InsensitiveLoad env d = Inl msg) \<longrightarrow>
            cfg cyc = fst (load (InsensitiveLoad env) [])) \<and>
         managers cyc =
           [Addresses \<lparr>mgr_oldMetadata = old, mgr_newMetadata = new, mgr_config = cfg cyc\<rparr>,
            Accounts \<lparr>mgr_oldMetadata = old, mgr_newMetadata = new, mgr_config = cfg cyc\<rparr>,
            Wsfc (newWsfcManager env new (cfg cyc)),
            Diagnostics \<lparr>mgr_oldMetadata = old, mgr_newMetadata = new, mgr_config = cfg cyc\<rparr>] \<and>
         calls cyc = map (\<lambda>mgr. dispatch (methods inp mgr)) (managers cyc)"
proof -
  have "\<forall>e. ReadFile inp = Inl e \<and> IsNotExist e \<longrightarrow> config_log cyc = []"
    using assms by (simp add: runUpdate_def parseConfig_def Let_def)
  moreover have "\<forall>e. ReadFile inp = Inl e \<and> \<not> IsNotExist e \<longrightarrow> config_log cyc = [ErrorValue e]"
    using assms by (simp add: runUpdate_def parseConfig_def Let_def)
  moreover have "\<forall>d msg. ReadFile inp = Inr d \<and> InsensitiveLoad env d = Inl msg \<longrightarrow>
      config_log cyc = [ErrorValue (ParseError msg)]"
    using assms by (simp add: runUpdate_def parseConfig_def load_def Let_def)
  moreover have "(\<exists>e. ReadFile inp = Inl e) \<or>
      (\<exists>d msg. ReadFile inp = Inr d \<and> InsensitiveLoad env d = Inl msg) \<longrightarrow>
      cfg cyc = fst (load (InsensitiveLoad env) [])"
    using assms by (auto simp: runUpdate_def parseConfig_def load_def Let_def)
  ultimately show ?thesis
    using assms managers_runUpdate [of env inp new old] calls_runUpdate [of env inp new old]
    by simp
qed

theorem config_errors_never_abort_the_cycle_witness:
  "runUpdate env0 (input0 (Inr 4) False (Inr ''['')) 4 3 =
     \<lparr>config_log = [ErrorValue (ParseError ''unclosed section'')], cfg = Some [],
      managers =
        [Addresses \<lparr>mgr_oldMetadata = 3, mgr_newMetadata = 4, mgr_config = Some []\<rparr>,
         Accounts \<lparr>mgr_oldMetadata = 3, mgr_newMetadata = 4, mgr_config = Some []\<rparr>,
         Wsfc (4, Some []),
         Diagnostics \<lparr>mgr_oldMetadata = 3, mgr_newMetadata = 4, mgr_config = Some []\<rparr>],
      calls =
        [[CallDisabled, CallDiff, CallSet, LogError (OtherError ''set failed'')],
         [CallDisabled],
         [CallDisabled, CallDiff],
         [CallDisabled, CallDiff, CallSet]]\<rparr> \<and>
   config_log (runUpdate env0 (input0 (Inr 4) False (Inl NotExistError)) 4 3) = [] \<and>
   config_log (runUpdate env0 (input0 (Inr 4) False (Inl (OtherError ''access denied''))) 4 3) =
     [ErrorValue (OtherError ''access denied'')]"
proof -
  have r: "ReadFile (input0 (Inr 4) False (Inr ''['')) = Inr ''[''"
    and l: "InsensitiveLoad env0 ''['' = Inl ''unclosed section''"
    by (simp_all add: input0_def env0_def)
  have "config_log (runUpdate env0 (input0 (Inr 4) False (Inr ''['')) 4 3) =
      [ErrorValue (ParseError ''unclosed section'')]"
    using config_errors_never_abort_the_cycle
      [of "runUpdate env0 (input0 (Inr 4) False (Inr ''['')) 4 3" env0
          "input0 (Inr 4) False (Inr ''['')" 4 3] r l
    by blast
  then show ?thesis
    by (simp add: input0_def env0_def methods0_def runUpdate_def parseConfig_def load_def
        dispatch_def Let_def)
qed

subsection \<open>The managers of a cycle\<close>

text \<open>
  C7, as the code has it. Every cycle of the watch loop builds its four manager instances
  anew, from the snapshots and the configuration of that cycle alone: the addresses, accounts
  and diagnostics managers from exactly the previous snapshot, the current snapshot and
  the override configuration; the wsfc manager by \<^verbatim>\<open>newWsfcManager\<close> from the current
  snapshot and the override configuration, without the previous snapshot.
\<close>

theorem managers_built_each_cycle:
  assumes "(new, old, cyc) \<in> set (dispatches (fst (run env zero inps)))"
  shows "managers cyc =
           [Addresses \<lparr>mgr_oldMetadata = old, mgr_newMetadata = new, mgr_config = cfg cyc\<rparr>,
            Accounts \<lparr>mgr_oldMetadata = old, mgr_newMetadata = new, mgr_config = cfg cyc\<rparr>,
            Wsfc (newWsfcManager env new (cfg cyc)),
            Diagnostics \<lparr>mgr_oldMetadata = old, mgr_newMetadata = new, mgr_config = cfg cyc\<rparr>]"
proof -
  from assms obtain inp where "cyc = runUpdate env inp new old"
    using every_dispatch [of new old cyc env "\<lparr>oldMetadata = zero, webError = 0\<rparr>" inps]
    by (auto simp: run_def)
  then show ?thesis by (simp add: managers_runUpdate)
qed

theorem managers_built_each_cycle_witness:
  "managers (runUpdate env0 (input0 (Inr 5) False (Inl NotExistError)) 5 4) =
     [Addresses \<lparr>mgr_oldMetadata = 4, mgr_newMetadata = 5, mgr_config = Some []\<rparr>,
      Accounts \<lparr>mgr_oldMetadata = 4, mgr_newMetadata = 5, mgr_config = Some []\<rparr>,
      Wsfc (5, Some []),
      Diagnostics \<lparr>mgr_oldMetadata = 4, mgr_newMetadata = 5, mgr_config = Some []\<rparr>]"
proof -
  have "(5, 4, runUpdate env0 (input0 (Inr 5) False (Inl NotExistError)) 5 4) \<in>
      set (dispatches (fst (run env0 0
        [input0 (Inr 4) False (Inl NotExistError),
         input0 (Inr 5) False (Inl NotExistError)])))"
    by (simp add: run_def iteration_def input0_def)
  from managers_built_each_cycle [OF this] show ?thesis
    by (simp add: input0_def env0_def runUpdate_def parseConfig_def load_def Let_def)
qed

text \<open>
  C7, as stated (every configuration domain instance is constructed from exactly the
  triple of previous snapshot, current snapshot and override configuration), fails for the
  wsfc manager: two cycles with the current snapshot 5 and the previous snapshots 3 and 4
  build the same wsfc manager, from the current snapshot and the configuration.
\<close>

theorem wsfc_manager_not_built_from_previous_snapshot:
  "managers (runUpdate env0 (input0 (Inr 5) False (Inl NotExistError)) 5 3) ! 2 =
     Wsfc (5, Some []) \<and>
   managers (runUpdate env0 (input0 (Inr 5) False (Inl NotExistError)) 5 4) ! 2 =
     Wsfc (5, Some [])"
  by (simp add: input0_def env0_def runUpdate_def parseConfig_def load_def Let_def)

subsection \<open>Cancellation\<close>

text \<open>
  C8, as the code has it. After every successful metadata fetch, cancellation is checked
  before dispatch begins: if cancellation has been requested at that point, the loop stops
  without dispatching, its counter as it was; otherwise the cycle is dispatched, the
  current snapshot becomes the previous one and the consecutive-error counter is reset to
  zero. The cancellation check occurs only at that point: after a failed fetch the loop
  goes on, and does the same whether cancellation has been requested or not.
\<close>

theorem cancellation_checked_after_successful_fetch:
  "(watchMetadata inp = Inr new \<and> ctxDone inp \<longrightarrow>
      iteration env s inp = ([WatchMetadata], Returned s)) \<and>
   (watchMetadata inp = Inr new \<and> \<not> ctxDone inp \<longrightarrow>
      (\<exists>cyc. iteration env s inp =
         ([WatchMetadata, RunUpdate new (oldMetadata s) cyc],
          Next \<lparr>oldMetadata = new, webError = 0\<rparr>))) \<and>
   (watchMetadata inp = Inl err \<longrightarrow>
      (\<exists>evs s'. iteration env s inp = (evs, Next s') \<and>
                 iteration env s (inp\<lparr>ctxDone := b\<rparr>) = (evs, Next s')))"
  by (simp add: iteration_def)

theorem cancellation_checked_after_successful_fetch_witness:
  "iteration env0 \<lparr>oldMetadata = 3, webError = 1\<rparr> (input0 (Inr 4) True (Inl NotExistError)) =
     ([WatchMetadata], Returned \<lparr>oldMetadata = 3, webError = 1\<rparr>) \<and>
   snd (iteration env0 \<lparr>oldMetadata = 3, webError = 1\<rparr>
          (input0 (Inr 4) False (Inl NotExistError))) =
     Next \<lparr>oldMetadata = 4, webError = 0\<rparr> \<and>
   snd (iteration env0 \<lparr>oldMetadata = 3, webError = 1\<rparr>
          (input0 (Inl DNSError) True (Inl NotExistError))) =
     Next \<lparr>oldMetadata = 3, webError = 2\<rparr>"
  using cancellation_checked_after_successful_fetch
    [of "input0 (Inr 4) True (Inl NotExistError)" 4 env0 "\<lparr>oldMetadata = 3, webError = 1\<rparr>"]
    cancellation_checked_after_successful_fetch
    [of "input0 (Inr 4) False (Inl NotExistError)" 4 env0 "\<lparr>oldMetadata = 3, webError = 1\<rparr>"]
    cancellation_checked_after_successful_fetch
    [of "input0 (Inl DNSError) True (Inl NotExistError)" _ env0
        "\<lparr>oldMetadata = 3, webError = 1\<rparr>" DNSError True]
  by (auto simp: input0_def iteration_def)

text \<open>
  C8, as stated (after every successful metadata fetch the consecutive-error counter is
  reset to zero), fails when cancellation has been requested: the loop returns before the
  assignment \<^verbatim>\<open>webError = 0\<close>, which stands after the dispatch. Here the first fetch
  fails, the second succeeds with the context done, and the loop returns with its counter
  at 1.
\<close>

theorem counter_not_reset_when_cancelled:
  "run env0 0
     [input0 (Inl DNSError) False (Inl NotExistError),
      input0 (Inr 4) True (Inl NotExistError)] =
   ([WatchMetadata, Sleep 5, WatchMetadata], Returned \<lparr>oldMetadata = 0, webError = 1\<rparr>)"
  by (simp add: run_def iteration_def input0_def)

subsection \<open>The first cycle\<close>

text \<open>
  C9. On the very first cycle, the previous snapshot passed to the reconciliation dispatch
  is the zero-valued/empty snapshot, so the first dispatch applies everything fresh for
  every domain whose diff treats an empty previous snapshot as always-changed.

  The first call of \<^verbatim>\<open>runUpdate\<close> in any run of the loop, after however many failed
  fetches, has the zero value of the snapshot type as its previous snapshot; and in that
  cycle \<^verbatim>\<open>set()\<close> is called on every manager that is not disabled and whose
  \<^verbatim>\<open>diff()\<close> answers true.
\<close>

theorem first_cycle_previous_snapshot_is_zero:
  assumes "dispatches (fst (run env zero inps)) = (new, old, cyc) # rest"
  shows "old = zero \<and>
         (\<exists>inp\<in>set inps. cyc = runUpdate env inp new zero \<and>
            (\<forall>j<length (managers cyc).
               \<not> disabled (methods inp (managers cyc ! j)) \<and>
               diff (methods inp (managers cyc ! j)) \<longrightarrow>
               CallSet \<in> set (calls cyc ! j)))"
proof -
  from assms have d: "dispatches (fst (loop env \<lparr>oldMetadata = zero, webError = 0\<rparr> inps)) =
      (new, old, cyc) # rest"
    by (simp add: run_def)
  from first_dispatch [OF d] obtain inp where old: "old = zero"
    and inp: "inp \<in> set inps" and cyc: "cyc = runUpdate env inp new old"
    by auto
  have "\<forall>j<length (managers cyc).
      \<not> disabled (methods inp (managers cyc ! j)) \<and> diff (methods inp (managers cyc ! j)) \<longrightarrow>
      CallSet \<in> set (calls cyc ! j)"
    using cyc by (simp add: length_managers calls_nth CallSet_dispatch)
  with old inp cyc show ?thesis by blast
qed

theorem first_cycle_previous_snapshot_is_zero_witness:
  "dispatches (fst (run env0 0
      [input0 (Inl DNSError) False (Inl NotExistError),
       input0 (Inr 4) False (Inl NotExistError),
       input0 (Inr 5) False (Inl NotExistError)])) =
     [(4, 0, runUpdate env0 (input0 (Inr 4) False (Inl NotExistError)) 4 0),
      (5, 4, runUpdate env0 (input0 (Inr 5) False (Inl NotExistError)) 5 4)] \<and>
   calls (runUpdate env0 (input0 (Inr 4) False (Inl NotExistError)) 4 0) =
     [[CallDisabled, CallDiff, CallSet, LogError (OtherError ''set failed'')],
      [CallDisabled],
      [CallDisabled, CallDiff],
      [CallDisabled, CallDiff, CallSet]]"
proof -
  have d: "dispatches (fst (run env0 0
      [input0 (Inl DNSError) False (Inl NotExistError),
       input0 (Inr 4) False (Inl NotExistError),
       input0 (Inr 5) False (Inl NotExistError)])) =
     (4, 0, runUpdate env0 (input0 (Inr 4) False (Inl NotExistError)) 4 0) #
     [(5, 4, runUpdate env0 (input0 (Inr 5) False (Inl NotExistError)) 5 4)]"
    by (simp add: run_def iteration_def input0_def)
  from first_cycle_previous_snapshot_is_zero [OF d] d show ?thesis
    by (simp add: input0_def env0_def methods0_def runUpdate_def parseConfig_def load_def
        dispatch_def Let_def)
qed

subsection \<open>The action of \<^verbatim>\<open>main\<close>\<close>



subsection \<open>\<^verbatim>\<open>containsString\<close>\<close>

text \<open>
  C10. For every string \<open>s\<close> and every list of strings \<open>ss\<close>,
  \<open>containsString s ss\<close> returns true if and only if some element of \<open>ss\<close> is equal
  to \<open>s\<close>.
\<close>

theorem containsString_iff_mem: "containsString s ss \<longleftrightarrow> (\<exists>a. a \<in> set ss \<and> a = s)"
  by (induction ss) auto

end
